theory Spec2Isabelle
  imports Complex_Main "HOL-Library.Multiset"
begin

section \<open>Double-precision values\<close>

text \<open>
  The engine computes in IEEE-754 binary64. A \<open>double\<close> is modelled by its value class:
  a finite number carrying its exact real value, the two infinities, or NaN. The special
  values follow the IEEE rules (\<open>0/0\<close>, \<open>0 * inf\<close>, \<open>inf - inf\<close> are NaN, \<open>log2 0\<close> is
  \<open>-inf\<close>, every comparison with NaN is false). Rounding of finite results and overflow
  of finite results to infinity are not modelled: finite arithmetic is exact. The two
  zeros are one value; every divisor of the program is a converted unsigned integer, so a
  zero divisor is \<open>+0\<close>.
\<close>

datatype double = Fin real | PInf | NInf | NaN

fun dneg :: "double \<Rightarrow> double" where
  "dneg (Fin a) = Fin (- a)"
| "dneg PInf = NInf"
| "dneg NInf = PInf"
| "dneg NaN = NaN"

fun dadd :: "double \<Rightarrow> double \<Rightarrow> double" where
  "dadd (Fin a) (Fin b) = Fin (a + b)"
| "dadd (Fin a) PInf = PInf"
| "dadd (Fin a) NInf = NInf"
| "dadd PInf (Fin b) = PInf"
| "dadd PInf PInf = PInf"
| "dadd PInf NInf = NaN"
| "dadd NInf (Fin b) = NInf"
| "dadd NInf PInf = NaN"
| "dadd NInf NInf = NInf"
| "dadd NaN y = NaN"
| "dadd x NaN = NaN"

definition dsub :: "double \<Rightarrow> double \<Rightarrow> double" where
  "dsub x y = dadd x (dneg y)"

fun dmul :: "double \<Rightarrow> double \<Rightarrow> double" where
  "dmul (Fin a) (Fin b) = Fin (a * b)"
| "dmul (Fin a) PInf = (if a = 0 then NaN else if 0 < a then PInf else NInf)"
| "dmul (Fin a) NInf = (if a = 0 then NaN else if 0 < a then NInf else PInf)"
| "dmul PInf (Fin b) = (if b = 0 then NaN else if 0 < b then PInf else NInf)"
| "dmul NInf (Fin b) = (if b = 0 then NaN else if 0 < b then NInf else PInf)"
| "dmul PInf PInf = PInf"
| "dmul PInf NInf = NInf"
| "dmul NInf PInf = NInf"
| "dmul NInf NInf = PInf"
| "dmul NaN y = NaN"
| "dmul x NaN = NaN"

fun ddiv :: "double \<Rightarrow> double \<Rightarrow> double" where
  "ddiv (Fin a) (Fin b) =
     (if b = 0 then (if a = 0 then NaN else if 0 < a then PInf else NInf) else Fin (a / b))"
| "ddiv (Fin a) PInf = Fin 0"
| "ddiv (Fin a) NInf = Fin 0"
| "ddiv PInf (Fin b) = (if 0 \<le> b then PInf else NInf)"
| "ddiv NInf (Fin b) = (if 0 \<le> b then NInf else PInf)"
| "ddiv PInf PInf = NaN"
| "ddiv PInf NInf = NaN"
| "ddiv NInf PInf = NaN"
| "ddiv NInf NInf = NaN"
| "ddiv NaN y = NaN"
| "ddiv x NaN = NaN"

text \<open>\<open>x < y\<close> on doubles; false as soon as one side is NaN.\<close>

fun dless :: "double \<Rightarrow> double \<Rightarrow> bool" where
  "dless (Fin a) (Fin b) = (a < b)"
| "dless (Fin a) PInf = True"
| "dless NInf (Fin b) = True"
| "dless NInf PInf = True"
| "dless x y = False"

text \<open>\<open>x > y\<close> is \<open>y < x\<close>.\<close>

definition dgreater :: "double \<Rightarrow> double \<Rightarrow> bool" where
  "dgreater x y = dless y x"

fun log2 :: "double \<Rightarrow> double" where
  "log2 (Fin a) = (if 0 < a then Fin (log 2 a) else if a = 0 then NInf else NaN)"
| "log2 PInf = PInf"
| "log2 NInf = NaN"
| "log2 NaN = NaN"

text \<open>\<open>__ull2double_rn\<close> and the C conversion \<open>(double) n\<close> of an unsigned integer.\<close>

definition ull2double :: "nat \<Rightarrow> double" where
  "ull2double n = Fin (real n)"

text \<open>\<open>ddiv_rn\<close>: the quotient of two unsigned 64-bit integers as a double.\<close>

definition ddiv_rn :: "nat \<Rightarrow> nat \<Rightarrow> double" where
  "ddiv_rn a b = ddiv (ull2double a) (ull2double b)"



text \<open>
  Addition of doubles is associative and commutative in this model and \<open>0.0\<close> is
  neutral, so that sums of doubles can be written with \<open>\<Sum>\<close>.
\<close>

instantiation double :: comm_monoid_add
begin

definition zero_double :: double where
  "zero_double = Fin 0"

definition plus_double :: "double \<Rightarrow> double \<Rightarrow> double" where
  "plus_double x y = dadd x y"

instance
proof
  fix a b c :: double
  show "a + b + c = a + (b + c)"
    unfolding plus_double_def by (cases a; cases b; cases c) simp_all
  show "a + b = b + a"
    unfolding plus_double_def by (cases a; cases b) simp_all
  show "0 + a = a"
    unfolding plus_double_def zero_double_def by (cases a) simp_all
qed

end

section \<open>Machine integers\<close>

text \<open>
  Unsigned integers are natural numbers; an accumulation that can wrap has its modulus
  written out. Array indices are not wrapped: an index is below the size of an allocated
  array.
\<close>

definition u64 :: "nat \<Rightarrow> nat" where
  "u64 n = n mod 2 ^ 64"

definition u32 :: "nat \<Rightarrow> nat" where
  "u32 n = n mod 2 ^ 32"

section \<open>Kernels\<close>

text \<open>
  A kernel is launched over a grid whose threads stride over the node indices
  \<open>0..<size\<close>; each index is handled by exactly one thread, which writes only cells that
  belong to its node. The model runs the indices in ascending order.
\<close>

record CompressedInLink =
  fromIndex :: nat
  weight :: double

text \<open>The slice loop \<open>for (j = start; j < start + count; j++)\<close> runs over these indices.\<close>

definition slice :: "nat \<Rightarrow> nat \<Rightarrow> nat list" where
  "slice start cnt = [start..<start + cnt]"

subsection \<open>\<open>run_rank_iteration\<close>\<close>

definition rank_ksum :: "CompressedInLink list \<Rightarrow> double list \<Rightarrow> nat \<Rightarrow> nat \<Rightarrow> double" where
  "rank_ksum inLinks prevRank start cnt =
     fold (\<lambda>j ksum. dadd (dmul (prevRank ! fromIndex (inLinks ! j)) (weight (inLinks ! j))) ksum)
       (slice start cnt) (Fin 0)"

definition run_rank_iteration ::
  "CompressedInLink list \<Rightarrow> double list \<Rightarrow> double list \<Rightarrow> nat \<Rightarrow> nat list \<Rightarrow> nat list \<Rightarrow>
   double \<Rightarrow> double \<Rightarrow> double list" where
  "run_rank_iteration inLinks prevRank rank rankSize inLinksStartIndex inLinksCount
     defaultRankWithCorrection dampingFactor =
     fold (\<lambda>i rank.
        if inLinksCount ! i = 0 then rank
        else rank[i := dadd (dmul (rank_ksum inLinks prevRank (inLinksStartIndex ! i) (inLinksCount ! i))
                              dampingFactor) defaultRankWithCorrection])
       [0..<rankSize] rank"

subsection \<open>\<open>find_max_ranks_diff\<close>\<close>

definition absolute_value :: "double \<Rightarrow> double" where
  "absolute_value x = (if dless x (Fin 0) then dneg x else x)"

definition maximum :: "double \<Rightarrow> double \<Rightarrow> double" where
  "maximum lhs rhs = (if dless lhs rhs then rhs else lhs)"

text \<open>
  \<open>thrust::transform\<close> with \<open>minus\<close> gives \<open>ranksDiff[i] = prevRank[i] - newRank[i]\<close>;
  \<open>thrust::transform_reduce\<close> folds \<open>maximum\<close> over the absolute values from \<open>0.0\<close>.
\<close>

definition find_max_ranks_diff :: "double list \<Rightarrow> double list \<Rightarrow> nat \<Rightarrow> double" where
  "find_max_ranks_diff prevRank newRank rankSize =
     fold (\<lambda>x acc. maximum acc (absolute_value x))
       (map (\<lambda>i. dsub (prevRank ! i) (newRank ! i)) [0..<rankSize]) (Fin 0)"

subsection \<open>Stake aggregation and local weights\<close>

definition node_total_stake :: "nat list \<Rightarrow> nat list \<Rightarrow> nat \<Rightarrow> nat \<Rightarrow> nat" where
  "node_total_stake stakes outLinksUsers start cnt =
     fold (\<lambda>j totalOutStake. u64 (totalOutStake + stakes ! (outLinksUsers ! j)))
       (slice start cnt) 0"

definition calculateCidTotalOutStake ::
  "nat \<Rightarrow> nat list \<Rightarrow> nat list \<Rightarrow> nat list \<Rightarrow> nat list \<Rightarrow> nat list" where
  "calculateCidTotalOutStake cidsSize stakes outLinksStartIndex outLinksCount outLinksUsers =
     map (\<lambda>i. node_total_stake stakes outLinksUsers (outLinksStartIndex ! i) (outLinksCount ! i))
       [0..<cidsSize]"

definition calculateCyberlinksLocalWeights ::
  "nat \<Rightarrow> nat list \<Rightarrow> nat list \<Rightarrow> nat list \<Rightarrow> nat list \<Rightarrow> nat list \<Rightarrow> nat list \<Rightarrow>
   double list \<Rightarrow> double list" where
  "calculateCyberlinksLocalWeights cidsSize stakes outLinksStartIndex outLinksCount outLinksUsers
     cidsTotalOutStakes cidsTotalInStakes cyberlinksLocalWeights =
     fold (\<lambda>i ws.
        let oil = u64 (cidsTotalOutStakes ! i + cidsTotalInStakes ! i)
        in fold (\<lambda>j ws. ws[j := ddiv_rn (stakes ! (outLinksUsers ! j)) oil])
             (slice (outLinksStartIndex ! i) (outLinksCount ! i)) ws)
       [0..<cidsSize] cyberlinksLocalWeights"

subsection \<open>\<open>calculateNodeEntropy\<close>\<close>

definition node_entropy :: "nat list \<Rightarrow> nat list \<Rightarrow> nat \<Rightarrow> nat \<Rightarrow> nat \<Rightarrow> double" where
  "node_entropy stakes outLinksUsers start cnt oil =
     fold (\<lambda>j nodeLinksEntropy.
        let weight = ddiv_rn (stakes ! (outLinksUsers ! j)) oil;
            logw = log2 weight
        in dsub nodeLinksEntropy (dmul weight logw))
       (slice start cnt) (Fin 0)"

definition calculateNodeEntropy ::
  "nat \<Rightarrow> nat list \<Rightarrow> nat list \<Rightarrow> nat list \<Rightarrow> nat list \<Rightarrow> nat list \<Rightarrow> nat list \<Rightarrow> double list" where
  "calculateNodeEntropy cidsSize stakes outLinksStartIndex outLinksCount outLinksUsers
     cidsTotalOutStakes cidsTotalInStakes =
     map (\<lambda>i. node_entropy stakes outLinksUsers (outLinksStartIndex ! i) (outLinksCount ! i)
                 (u64 (cidsTotalOutStakes ! i + cidsTotalInStakes ! i)))
       [0..<cidsSize]"

subsection \<open>\<open>mulArrays\<close>, \<open>sumArrays\<close>\<close>

definition mulArrays :: "nat \<Rightarrow> double list \<Rightarrow> double list \<Rightarrow> double list" where
  "mulArrays n in1 in2 = map (\<lambda>tx. dmul (in1 ! tx) (in2 ! tx)) [0..<n]"

definition sumArrays :: "nat \<Rightarrow> double list \<Rightarrow> double list \<Rightarrow> double list" where
  "sumArrays n in1 in2 = map (\<lambda>tx. dadd (in1 ! tx) (in2 ! tx)) [0..<n]"

subsection \<open>Inbound compression\<close>

definition node_compressed_count :: "nat list \<Rightarrow> nat \<Rightarrow> nat \<Rightarrow> nat" where
  "node_compressed_count inLinksOuts start cnt =
     fold (\<lambda>j compressedLinksCount.
        if j = start \<or> inLinksOuts ! j \<noteq> inLinksOuts ! (j - 1)
        then compressedLinksCount + 1 else compressedLinksCount)
       (slice start cnt) 0"

definition getCompressedInLinksCount :: "nat \<Rightarrow> nat list \<Rightarrow> nat list \<Rightarrow> nat list \<Rightarrow> nat list" where
  "getCompressedInLinksCount cidsSize inLinksStartIndex inLinksCount inLinksOuts =
     map (\<lambda>i. if inLinksCount ! i = 0 then 0
              else node_compressed_count inLinksOuts (inLinksStartIndex ! i) (inLinksCount ! i))
       [0..<cidsSize]"

text \<open>
  The emit loop of one node. Its state is the output array, the 32-bit write index
  \<open>compressedLinksIndex\<close> and the 64-bit running stake \<open>compressedLinkStake\<close>.
\<close>

definition compress_step ::
  "nat list \<Rightarrow> nat list \<Rightarrow> nat list \<Rightarrow> nat list \<Rightarrow> nat \<Rightarrow> nat \<Rightarrow>
   CompressedInLink list \<times> nat \<times> nat \<Rightarrow> CompressedInLink list \<times> nat \<times> nat" where
  "compress_step cidsTotalOutStakes inLinksOuts inLinksUsers stakes lastLinkIndex j =
     (\<lambda>(compressedInLinks, compressedLinksIndex, compressedLinkStake).
        let compressedLinkStake = u64 (compressedLinkStake + stakes ! (inLinksUsers ! j))
        in if j = lastLinkIndex \<or> inLinksOuts ! j \<noteq> inLinksOuts ! (j + 1)
           then let oppositeCid = inLinksOuts ! j;
                    weight = ddiv_rn compressedLinkStake (cidsTotalOutStakes ! oppositeCid)
                in (compressedInLinks[compressedLinksIndex :=
                      \<lparr>fromIndex = oppositeCid, weight = weight\<rparr>],
                    u32 (compressedLinksIndex + 1), 0)
           else (compressedInLinks, compressedLinksIndex, compressedLinkStake))"

definition node_compress ::
  "nat list \<Rightarrow> nat list \<Rightarrow> nat list \<Rightarrow> nat list \<Rightarrow> nat \<Rightarrow> nat \<Rightarrow> nat \<Rightarrow>
   CompressedInLink list \<Rightarrow> CompressedInLink list" where
  "node_compress cidsTotalOutStakes inLinksOuts inLinksUsers stakes start cnt compressedStart
     compressedInLinks =
     (if cnt = 0 then compressedInLinks
      else let compressedLinksIndex = u32 compressedStart
       in if cnt = 1
          then let oppositeCid = inLinksOuts ! start;
                   compressedLinkStake = stakes ! (inLinksUsers ! start);
                   weight = ddiv_rn compressedLinkStake (cidsTotalOutStakes ! oppositeCid)
               in compressedInLinks[compressedLinksIndex :=
                    \<lparr>fromIndex = oppositeCid, weight = weight\<rparr>]
          else let lastLinkIndex = start + cnt - 1
               in fst (fold (compress_step cidsTotalOutStakes inLinksOuts inLinksUsers stakes
                               lastLinkIndex)
                         [start..<lastLinkIndex + 1] (compressedInLinks, compressedLinksIndex, 0)))"

definition getCompressedInLinks ::
  "nat \<Rightarrow> nat list \<Rightarrow> nat list \<Rightarrow> nat list \<Rightarrow> nat list \<Rightarrow> nat list \<Rightarrow> nat list \<Rightarrow>
   nat list \<Rightarrow> nat list \<Rightarrow> CompressedInLink list \<Rightarrow> CompressedInLink list" where
  "getCompressedInLinks cidsSize inLinksStartIndex inLinksCount cidsTotalOutStakes
     inLinksOuts inLinksUsers stakes compressedInLinksStartIndex compressedInLinksCount
     compressedInLinks =
     fold (\<lambda>i. node_compress cidsTotalOutStakes inLinksOuts inLinksUsers stakes
                 (inLinksStartIndex ! i) (inLinksCount ! i) (compressedInLinksStartIndex ! i))
       [0..<cidsSize] compressedInLinks"

subsection \<open>\<open>calculateKarma\<close>\<close>

definition calculateKarma ::
  "nat \<Rightarrow> nat list \<Rightarrow> nat list \<Rightarrow> nat list \<Rightarrow> double list \<Rightarrow> double list \<Rightarrow> double list \<Rightarrow>
   double list" where
  "calculateKarma cidsSize outLinksStartIndex outLinksCount outLinksUsers cyberlinksLocalWeights
     light karma =
     fold (\<lambda>i karma.
        fold (\<lambda>j karma.
           karma[outLinksUsers ! j :=
             dadd (karma ! (outLinksUsers ! j)) (dmul (light ! i) (cyberlinksLocalWeights ! j))])
          (slice (outLinksStartIndex ! i) (outLinksCount ! i)) karma)
       [0..<cidsSize] karma"

subsection \<open>\<open>getLinksStartIndex\<close>\<close>

definition getLinksStartIndex :: "nat \<Rightarrow> nat list \<Rightarrow> nat list \<times> nat" where
  "getLinksStartIndex cidsSize linksCount =
     fold (\<lambda>i (linksStartIndex, index). (linksStartIndex @ [index], u64 (index + linksCount ! i)))
       [0..<cidsSize] ([], 0)"

section \<open>The entry point\<close>

subsection \<open>The power-method loop\<close>

text \<open>
  The loop state is the pair of device buffers \<open>d_rank\<close>, \<open>d_prevRank\<close> and \<open>change\<close>.
  One pass of the body swaps the two buffers, runs the kernel, which reads the new
  \<open>d_prevRank\<close> and writes into the new \<open>d_rank\<close>, and takes the largest difference.
\<close>

definition rank_body ::
  "CompressedInLink list \<Rightarrow> nat \<Rightarrow> nat list \<Rightarrow> nat list \<Rightarrow> double \<Rightarrow> double \<Rightarrow>
   double list \<times> double list \<times> double \<Rightarrow> double list \<times> double list \<times> double" where
  "rank_body d_compressedInLinks cidsSize d_compressedInLinksStartIndex d_compressedInLinksCount
     defaultRankWithCorrection dampingFactor =
     (\<lambda>(d_rank, d_prevRank, change).
        let (d_rank, d_prevRank) = (d_prevRank, d_rank);
            d_rank = run_rank_iteration d_compressedInLinks d_prevRank d_rank cidsSize
                       d_compressedInLinksStartIndex d_compressedInLinksCount
                       defaultRankWithCorrection dampingFactor;
            change = find_max_ranks_diff d_prevRank d_rank cidsSize
        in (d_rank, d_prevRank, change))"

text \<open>
  \<open>while (change > tolerance)\<close>: the loop may run forever, and then its value is \<open>None\<close>.
\<close>

partial_function (option) rank_loop ::
  "(double list \<times> double list \<times> double \<Rightarrow> double list \<times> double list \<times> double) \<Rightarrow> double \<Rightarrow>
   double list \<times> double list \<times> double \<Rightarrow> (double list \<times> double list \<times> double) option" where
  "rank_loop body tolerance s =
     (if dgreater (snd (snd s)) tolerance then rank_loop body tolerance (body s) else Some s)"

subsection \<open>\<open>calculate_rank\<close>\<close>

text \<open>
  Host arrays are lists; \<open>cudaMemcpy\<close> of \<open>n\<close> cells from \<open>src\<close> into \<open>dst\<close> replaces the
  first \<open>n\<close> cells of \<open>dst\<close>. A device array that is allocated and then filled from a host
  array holds the first \<open>n\<close> cells of the host array. The buffers \<open>d_cyberlinksLocalWeights\<close>
  and \<open>d_compressedInLinks\<close> are allocated and not filled; their first contents are the
  parameters \<open>uninitWeights\<close> and \<open>uninitLinks\<close>. The diagnostic kernels \<open>calculate_SI\<close>,
  \<open>calculate_QJ\<close> and \<open>calculate_ENT\<close> write buffers that are printed and freed; no output
  reads them, and they are left out, as are the prints.
\<close>

definition cudaMemcpy :: "'a list \<Rightarrow> 'a list \<Rightarrow> nat \<Rightarrow> 'a list" where
  "cudaMemcpy dst src n = take n src @ drop n dst"

record outputs =
  out_rank :: "double list"
  out_entropy :: "double list"
  out_light :: "double list"
  out_karma :: "double list"

text \<open>
  The host loop of step 5: it stores the default rank in every cell of the caller's
  \<open>rank\<close> array and counts the nodes without inbound links.
\<close>

definition init_rank :: "nat \<Rightarrow> nat list \<Rightarrow> double \<Rightarrow> double list \<Rightarrow> double list \<times> nat" where
  "init_rank cidsSize inLinksCount defaultRank rank =
     fold (\<lambda>i (rank, danglingNodesSize).
             (rank[i := defaultRank],
              if inLinksCount ! i = 0 then danglingNodesSize + 1 else danglingNodesSize))
       [0..<cidsSize] (rank, 0)"

definition calculate_rank ::
  "nat list \<Rightarrow> nat \<Rightarrow> nat \<Rightarrow> nat \<Rightarrow> nat list \<Rightarrow> nat list \<Rightarrow> nat list \<Rightarrow> nat list \<Rightarrow> nat list \<Rightarrow>
   nat list \<Rightarrow> double list \<Rightarrow> double \<Rightarrow> double \<Rightarrow> double list \<Rightarrow> double list \<Rightarrow> double list \<Rightarrow>
   (nat \<Rightarrow> double) \<Rightarrow> (nat \<Rightarrow> CompressedInLink) \<Rightarrow> outputs option" where
  "calculate_rank stakes stakesSize cidsSize linksSize inLinksCount outLinksCount outLinksIns
     inLinksOuts inLinksUsers outLinksUsers rank dampingFactor tolerance entropy light karma
     uninitWeights uninitLinks =
     (let inLinksStartIndex = fst (getLinksStartIndex cidsSize inLinksCount);
          outLinksStartIndex = fst (getLinksStartIndex cidsSize outLinksCount);
          d_cidsTotalOutStakes = calculateCidTotalOutStake cidsSize stakes outLinksStartIndex
                                   outLinksCount outLinksUsers;
          d_cidsTotalInStakes = calculateCidTotalOutStake cidsSize stakes inLinksStartIndex
                                  inLinksCount inLinksUsers;
          d_entropy_out = calculateNodeEntropy cidsSize stakes outLinksStartIndex outLinksCount
                            outLinksUsers d_cidsTotalOutStakes d_cidsTotalInStakes;
          d_entropy_in = calculateNodeEntropy cidsSize stakes inLinksStartIndex inLinksCount
                           inLinksUsers d_cidsTotalOutStakes d_cidsTotalInStakes;
          d_entropy = sumArrays cidsSize d_entropy_out d_entropy_in;
          d_cyberlinksLocalWeights = calculateCyberlinksLocalWeights cidsSize stakes
                                       outLinksStartIndex outLinksCount outLinksUsers
                                       d_cidsTotalOutStakes d_cidsTotalInStakes
                                       (map uninitWeights [0..<linksSize]);
          d_compressedInLinksCount = getCompressedInLinksCount cidsSize inLinksStartIndex
                                       inLinksCount inLinksOuts;
          (compressedInLinksStartIndex, compressedInLinksSize) =
             getLinksStartIndex cidsSize d_compressedInLinksCount;
          d_compressedInLinks = getCompressedInLinks cidsSize inLinksStartIndex inLinksCount
                                  d_cidsTotalOutStakes inLinksOuts inLinksUsers stakes
                                  compressedInLinksStartIndex d_compressedInLinksCount
                                  (map uninitLinks [0..<compressedInLinksSize]);
          defaultRank = ddiv (dsub (Fin 1) dampingFactor) (ull2double cidsSize);
          (rank, danglingNodesSize) = init_rank cidsSize inLinksCount defaultRank rank;
          innerProductOverSize =
             dmul defaultRank (ddiv (ull2double danglingNodesSize) (ull2double cidsSize));
          defaultRankWithCorrection = dadd (dmul dampingFactor innerProductOverSize) defaultRank;
          d_rank = take cidsSize rank;
          d_prevRank = take cidsSize rank;
          change = dadd tolerance (Fin 1)
      in case rank_loop (rank_body d_compressedInLinks cidsSize compressedInLinksStartIndex
                           d_compressedInLinksCount defaultRankWithCorrection dampingFactor)
                tolerance (d_rank, d_prevRank, change) of
           None \<Rightarrow> None
         | Some (d_rank, d_prevRank, change) \<Rightarrow>
             (let rank = cudaMemcpy rank d_rank cidsSize;
                  d_light = mulArrays cidsSize d_rank d_entropy;
                  light = cudaMemcpy light d_light cidsSize;
                  d_karma = calculateKarma cidsSize outLinksStartIndex outLinksCount outLinksUsers
                              d_cyberlinksLocalWeights d_light (take stakesSize karma);
                  karma = cudaMemcpy karma d_karma stakesSize
              in Some \<lparr>out_rank = rank, out_entropy = entropy, out_light = light,
                        out_karma = karma\<rparr>))"

subsection \<open>The stages of the entry point as functions of its inputs\<close>

text \<open>
  The values that \<open>calculate_rank\<close> computes on its way, named so that statements about
  the entry point can refer to them.
\<close>

definition links_start :: "nat \<Rightarrow> nat list \<Rightarrow> nat list" where
  "links_start cidsSize linksCount = fst (getLinksStartIndex cidsSize linksCount)"

definition total_stakes :: "nat \<Rightarrow> nat list \<Rightarrow> nat list \<Rightarrow> nat list \<Rightarrow> nat list" where
  "total_stakes cidsSize stakes linksCount linksUsers =
     calculateCidTotalOutStake cidsSize stakes (links_start cidsSize linksCount) linksCount
       linksUsers"

definition oil :: "nat \<Rightarrow> nat list \<Rightarrow> nat list \<Rightarrow> nat list \<Rightarrow> nat list \<Rightarrow> nat list \<Rightarrow> nat \<Rightarrow> nat" where
  "oil cidsSize stakes inLinksCount outLinksCount inLinksUsers outLinksUsers c =
     u64 (total_stakes cidsSize stakes outLinksCount outLinksUsers ! c +
          total_stakes cidsSize stakes inLinksCount inLinksUsers ! c)"

definition device_entropy ::
  "nat \<Rightarrow> nat list \<Rightarrow> nat list \<Rightarrow> nat list \<Rightarrow> nat list \<Rightarrow> nat list \<Rightarrow> double list" where
  "device_entropy cidsSize stakes inLinksCount outLinksCount inLinksUsers outLinksUsers =
     sumArrays cidsSize
       (calculateNodeEntropy cidsSize stakes (links_start cidsSize outLinksCount) outLinksCount
          outLinksUsers (total_stakes cidsSize stakes outLinksCount outLinksUsers)
          (total_stakes cidsSize stakes inLinksCount inLinksUsers))
       (calculateNodeEntropy cidsSize stakes (links_start cidsSize inLinksCount) inLinksCount
          inLinksUsers (total_stakes cidsSize stakes outLinksCount outLinksUsers)
          (total_stakes cidsSize stakes inLinksCount inLinksUsers))"

definition local_weights ::
  "nat \<Rightarrow> nat \<Rightarrow> nat list \<Rightarrow> nat list \<Rightarrow> nat list \<Rightarrow> nat list \<Rightarrow> nat list \<Rightarrow> (nat \<Rightarrow> double) \<Rightarrow>
   double list" where
  "local_weights cidsSize linksSize stakes inLinksCount outLinksCount inLinksUsers outLinksUsers
     uninitWeights =
     calculateCyberlinksLocalWeights cidsSize stakes (links_start cidsSize outLinksCount)
       outLinksCount outLinksUsers (total_stakes cidsSize stakes outLinksCount outLinksUsers)
       (total_stakes cidsSize stakes inLinksCount inLinksUsers)
       (map uninitWeights [0..<linksSize])"









subsection \<open>The emit loop as a function on lists\<close>





subsection \<open>The iteration on real values\<close>





subsection \<open>Valid input graphs\<close>




subsection \<open>Example inputs\<close>

text \<open>Contents of freshly allocated device memory used in the examples below.\<close>

definition zero_weights :: "nat \<Rightarrow> double" where
  "zero_weights i = Fin 0"

definition zero_links :: "nat \<Rightarrow> CompressedInLink" where
  "zero_links i = \<lparr>fromIndex = 0, weight = Fin 0\<rparr>"

section \<open>Basic facts\<close>

lemma slice_Suc: "slice a (Suc n) = slice a n @ [a + n]"
  by (simp add: slice_def)

lemma slice_0: "slice a 0 = []"
  by (simp add: slice_def)

lemma log_half: "log 2 (1 / 2) = - 1"
  by (simp add: log_divide)

lemma fold_upd_length:
  "length (fold (\<lambda>i xs. if p i then xs else xs[i := f i]) [0..<n] xs) = length xs"
  by (induction n) simp_all

lemma fold_upd_nth:
  "c < length xs \<Longrightarrow>
   fold (\<lambda>i xs. if p i then xs else xs[i := f i]) [0..<n] xs ! c =
     (if c < n \<and> \<not> p c then f c else xs ! c)"
proof (induction n)
  case 0
  then show ?case by simp
next
  case (Suc n)
  then show ?case
    by (auto simp: nth_list_update fold_upd_length less_Suc_eq)
qed

subsection \<open>The rank kernel\<close>


lemma run_rank_iteration_length:
  "length (run_rank_iteration inLinks prevRank rank n st cn r d) = length rank"
  unfolding run_rank_iteration_def by (rule fold_upd_length)

lemma run_rank_iteration_nth:
  "c < length rank \<Longrightarrow>
   run_rank_iteration inLinks prevRank rank n st cn r d ! c =
     (if c < n \<and> cn ! c \<noteq> 0
      then dadd (dmul (rank_ksum inLinks prevRank (st ! c) (cn ! c)) d) r
      else rank ! c)"
  unfolding run_rank_iteration_def by (simp add: fold_upd_nth)

subsection \<open>The loop\<close>

lemma rank_loop_step:
  "dgreater (snd (snd s)) tol \<Longrightarrow> rank_loop body tol s = rank_loop body tol (body s)"
  by (subst rank_loop.simps) simp

lemma rank_loop_stop: "\<not> dgreater (snd (snd s)) tol \<Longrightarrow> rank_loop body tol s = Some s"
  by (subst rank_loop.simps) simp


lemma rank_loop_returns:
  assumes "rank_loop body tol s = Some s'"
  shows "\<exists>k. s' = (body ^^ k) s \<and> \<not> dgreater (snd (snd s')) tol \<and>
             (\<forall>m<k. dgreater (snd (snd ((body ^^ m) s))) tol)"
proof (induction rule: rank_loop.raw_induct [OF _ assms])
  case (1 f body tol s s')
  show ?case
  proof (cases "dgreater (snd (snd s)) tol")
    case True
    with 1 have "f body tol (body s) = Some s'" by simp
    from 1(1)[OF this] obtain k where k: "s' = (body ^^ k) (body s)"
      "\<not> dgreater (snd (snd s')) tol"
      "\<forall>m<k. dgreater (snd (snd ((body ^^ m) (body s)))) tol"
      by blast
    have "\<forall>m<Suc k. dgreater (snd (snd ((body ^^ m) s))) tol"
    proof (intro allI impI)
      fix m assume "m < Suc k"
      then show "dgreater (snd (snd ((body ^^ m) s))) tol"
        using True k(3) by (cases m) (simp_all add: funpow_swap1)
    qed
    with k show ?thesis by (intro exI[of _ "Suc k"]) (simp add: funpow_swap1)
  next
    case False
    with 1 show ?thesis by (intro exI[of _ 0]) simp
  qed
qed

subsection \<open>The entry point, stage by stage\<close>

lemma calculate_rank_stages:
  assumes "getLinksStartIndex cidsSize inLinksCount = (inS, inE)"
    and "getLinksStartIndex cidsSize outLinksCount = (outS, outE)"
    and "calculateCidTotalOutStake cidsSize stakes outS outLinksCount outLinksUsers = tout"
    and "calculateCidTotalOutStake cidsSize stakes inS inLinksCount inLinksUsers = tin"
    and "sumArrays cidsSize
           (calculateNodeEntropy cidsSize stakes outS outLinksCount outLinksUsers tout tin)
           (calculateNodeEntropy cidsSize stakes inS inLinksCount inLinksUsers tout tin) = ent"
    and "calculateCyberlinksLocalWeights cidsSize stakes outS outLinksCount outLinksUsers tout tin
           (map uninitWeights [0..<linksSize]) = ws"
    and "getCompressedInLinksCount cidsSize inS inLinksCount inLinksOuts = cc"
    and "getLinksStartIndex cidsSize cc = (cs, K)"
    and "getCompressedInLinks cidsSize inS inLinksCount tout inLinksOuts inLinksUsers stakes cs cc
           (map uninitLinks [0..<K]) = links"
    and "ddiv (dsub (Fin 1) dampingFactor) (ull2double cidsSize) = r0"
    and "init_rank cidsSize inLinksCount r0 rank = (rank1, D)"
    and "dadd (dmul dampingFactor (dmul r0 (ddiv (ull2double D) (ull2double cidsSize)))) r0 = r"
    and "rank_loop (rank_body links cidsSize cs cc r dampingFactor) tolerance
           (take cidsSize rank1, take cidsSize rank1, dadd tolerance (Fin 1)) = res"
  shows "calculate_rank stakes stakesSize cidsSize linksSize inLinksCount outLinksCount outLinksIns
     inLinksOuts inLinksUsers outLinksUsers rank dampingFactor tolerance entropy light karma
     uninitWeights uninitLinks =
     (case res of None \<Rightarrow> None
      | Some (d_rank, d_prevRank, change) \<Rightarrow>
          Some \<lparr>out_rank = cudaMemcpy rank1 d_rank cidsSize,
                out_entropy = entropy,
                out_light = cudaMemcpy light (mulArrays cidsSize d_rank ent) cidsSize,
                out_karma = cudaMemcpy karma
                  (calculateKarma cidsSize outS outLinksCount outLinksUsers ws
                     (mulArrays cidsSize d_rank ent) (take stakesSize karma)) stakesSize\<rparr>)"
  unfolding calculate_rank_def Let_def assms fst_conv snd_conv split_conv
  by (simp split: option.splits prod.splits)

subsection \<open>Worked examples and the loop on dangling nodes\<close>

lemma s1_loop:
  assumes "0 \<le> t"
  shows "rank_loop (rank_body [] 1 [0] [0] r d) (Fin t) ([Fin x], [Fin x], Fin (t + 1)) =
     Some ([Fin x], [Fin x], Fin 0)"
proof -
  let ?B = "rank_body [] 1 [0] [0] r d"
  have b: "?B ([Fin x], [Fin x], c) = ([Fin x], [Fin x], Fin 0)" for c
    by (simp add: rank_body_def run_rank_iteration_def find_max_ranks_diff_def
        absolute_value_def maximum_def dsub_def)
  have "rank_loop ?B (Fin t) ([Fin x], [Fin x], Fin (t + 1)) =
        rank_loop ?B (Fin t) (?B ([Fin x], [Fin x], Fin (t + 1)))"
    by (rule rank_loop_step) (simp add: dgreater_def)
  also have "\<dots> = rank_loop ?B (Fin t) ([Fin x], [Fin x], Fin 0)"
    by (simp only: b)
  also have "\<dots> = Some ([Fin x], [Fin x], Fin 0)"
    using assms by (intro rank_loop_stop) (simp add: dgreater_def not_less)
  finally show ?thesis .
qed

lemma s1_loop':
  assumes "0 \<le> t"
  shows "rank_loop (rank_body [] 1 [0] [0] r d) (Fin t)
           (take 1 [Fin x], take 1 [Fin x], dadd (Fin t) (Fin 1)) =
         Some ([Fin x], [Fin x], Fin 0)"
  using s1_loop[OF assms] by simp

lemma s1_stages:
  "getLinksStartIndex 1 [0] = ([0], 0)"
  "calculateCidTotalOutStake 1 st [0] [0] us = [0]"
  "sumArrays 1 (calculateNodeEntropy 1 st [0] [0] us [0] [0])
     (calculateNodeEntropy 1 st [0] [0] us' [0] [0]) = [Fin 0]"
  "calculateCyberlinksLocalWeights 1 st [0] [0] us [0] [0] (map uw [0..<0]) = []"
  "getCompressedInLinksCount 1 [0] [0] us = [0]"
  "getCompressedInLinks 1 [0] [0] [0] us us' st [0] [0] (map ul [0..<0]) = []"
  "init_rank 1 [0] r0 [y] = ([r0], 1)"
  "calculateKarma 1 [0] [0] us ws li ka = ka"
  by (simp_all add: getLinksStartIndex_def calculateCidTotalOutStake_def node_total_stake_def
      calculateNodeEntropy_def node_entropy_def sumArrays_def calculateCyberlinksLocalWeights_def
      getCompressedInLinksCount_def getCompressedInLinks_def node_compress_def init_rank_def
      calculateKarma_def slice_def u64_def)

lemma s1_run:
  assumes "0 \<le> t"
  shows "calculate_rank [1] 1 1 0 [0] [0] [] [] [] [] [Fin 0] (Fin d) (Fin t)
     [Fin 0] [Fin 0] [Fin 0] uw ul
   = Some \<lparr>out_rank = [Fin (1 - d)], out_entropy = [Fin 0], out_light = [Fin 0],
            out_karma = [Fin 0]\<rparr>"
proof -
  have r0: "ddiv (dsub (Fin 1) (Fin d)) (ull2double 1) = Fin (1 - d)"
    by (simp add: dsub_def ull2double_def)
  show ?thesis
    by (subst calculate_rank_stages[OF s1_stages(1) s1_stages(1) s1_stages(2) s1_stages(2)
          s1_stages(3) s1_stages(4) s1_stages(5) s1_stages(1) s1_stages(6) r0 s1_stages(7) refl
          s1_loop'[OF assms]])
       (simp add: cudaMemcpy_def mulArrays_def calculateKarma_def slice_def)
qed










lemma g2_loop:
  "rank_loop (rank_body [\<lparr>fromIndex = 0, weight = Fin 1\<rparr>] 2 [0, 0] [0, 1] (Fin (5 / 16))
              (Fin (1 / 2))) (Fin (1 / 1000))
     (take 2 [Fin (1 / 4), Fin (1 / 4)], take 2 [Fin (1 / 4), Fin (1 / 4)],
      dadd (Fin (1 / 1000)) (Fin 1)) =
   Some ([Fin (1 / 4), Fin (7 / 16)], [Fin (1 / 4), Fin (7 / 16)], Fin 0)"
proof -
  let ?B = "rank_body [\<lparr>fromIndex = 0, weight = Fin 1\<rparr>] 2 [0, 0] [0, 1] (Fin (5 / 16))
              (Fin (1 / 2))"
  let ?s0 = "([Fin (1 / 4), Fin (1 / 4)], [Fin (1 / 4), Fin (1 / 4)], Fin (1001 / 1000))"
  let ?s1 = "([Fin (1 / 4), Fin (7 / 16)], [Fin (1 / 4), Fin (1 / 4)], Fin (3 / 16))"
  let ?s2 = "([Fin (1 / 4), Fin (7 / 16)], [Fin (1 / 4), Fin (7 / 16)], Fin 0)"
  have b1: "?B ?s0 = ?s1"
    by (simp add: rank_body_def run_rank_iteration_def rank_ksum_def find_max_ranks_diff_def
        absolute_value_def maximum_def slice_def dsub_def upt_rec Let_def)
  have b2: "?B ?s1 = ?s2"
    by (simp add: rank_body_def run_rank_iteration_def rank_ksum_def find_max_ranks_diff_def
        absolute_value_def maximum_def slice_def dsub_def upt_rec Let_def)
  have "rank_loop ?B (Fin (1 / 1000)) ?s0 = rank_loop ?B (Fin (1 / 1000)) (?B ?s0)"
    by (rule rank_loop_step) (simp add: dgreater_def)
  also have "\<dots> = rank_loop ?B (Fin (1 / 1000)) ?s1"
    by (simp only: b1)
  also have "\<dots> = rank_loop ?B (Fin (1 / 1000)) (?B ?s1)"
    by (rule rank_loop_step) (simp add: dgreater_def)
  also have "\<dots> = rank_loop ?B (Fin (1 / 1000)) ?s2"
    by (simp only: b2)
  also have "\<dots> = Some ?s2"
    by (rule rank_loop_stop) (simp add: dgreater_def)
  finally show ?thesis by simp
qed

lemma g2_stages:
  "getLinksStartIndex 2 [0, 2] = ([0, 0], 2)"
  "getLinksStartIndex 2 [2, 0] = ([0, 2], 2)"
  "calculateCidTotalOutStake 2 [1, 1] [0, 2] [2, 0] [0, 1] = [2, 0]"
  "calculateCidTotalOutStake 2 [1, 1] [0, 0] [0, 2] [0, 1] = [0, 2]"
  "sumArrays 2 (calculateNodeEntropy 2 [1, 1] [0, 2] [2, 0] [0, 1] [2, 0] [0, 2])
     (calculateNodeEntropy 2 [1, 1] [0, 0] [0, 2] [0, 1] [2, 0] [0, 2]) = [Fin 1, Fin 1]"
  "calculateCyberlinksLocalWeights 2 [1, 1] [0, 2] [2, 0] [0, 1] [2, 0] [0, 2]
     (map uw [0..<2]) = [Fin (1 / 2), Fin (1 / 2)]"
  "getCompressedInLinksCount 2 [0, 0] [0, 2] [0, 0] = [0, 1]"
  "getLinksStartIndex 2 [0, 1] = ([0, 0], 1)"
  "getCompressedInLinks 2 [0, 0] [0, 2] [2, 0] [0, 0] [0, 1] [1, 1] [0, 0] [0, 1]
     (map ul [0..<1]) = [\<lparr>fromIndex = 0, weight = Fin 1\<rparr>]"
  "ddiv (dsub (Fin 1) (Fin (1 / 2))) (ull2double 2) = Fin (1 / 4)"
  "init_rank 2 [0, 2] (Fin (1 / 4)) [Fin 0, Fin 0] = ([Fin (1 / 4), Fin (1 / 4)], 1)"
  "dadd (dmul (Fin (1 / 2)) (dmul (Fin (1 / 4)) (ddiv (ull2double 1) (ull2double 2))))
     (Fin (1 / 4)) = Fin (5 / 16)"
  by (simp_all add: getLinksStartIndex_def calculateCidTotalOutStake_def node_total_stake_def
      calculateNodeEntropy_def node_entropy_def sumArrays_def calculateCyberlinksLocalWeights_def
      getCompressedInLinksCount_def node_compressed_count_def getCompressedInLinks_def
      node_compress_def compress_step_def init_rank_def slice_def u64_def u32_def ddiv_rn_def
      ull2double_def dsub_def upt_rec log_half)

lemma g2_run:
  "calculate_rank [1, 1] 2 2 2 [0, 2] [2, 0] [1, 1] [0, 0] [0, 1] [0, 1] [Fin 0, Fin 0]
     (Fin (1 / 2)) (Fin (1 / 1000)) [Fin 0, Fin 0] [Fin 0, Fin 0] [Fin 0, Fin 0] uw ul =
   Some \<lparr>out_rank = [Fin (1 / 4), Fin (7 / 16)], out_entropy = [Fin 0, Fin 0],
          out_light = [Fin (1 / 4), Fin (7 / 16)], out_karma = [Fin (1 / 8), Fin (1 / 8)]\<rparr>"
  by (subst calculate_rank_stages[OF g2_stages(1) g2_stages(2) g2_stages(3) g2_stages(4)
        g2_stages(5) g2_stages(6) g2_stages(7) g2_stages(8) g2_stages(9) g2_stages(10)
        g2_stages(11) g2_stages(12) g2_loop])
     (simp add: cudaMemcpy_def mulArrays_def calculateKarma_def slice_def upt_rec)



lemma fold_set_length: "length (fold (\<lambda>i xs. xs[i := f i]) [0..<n] xs) = length xs"
  by (induction n) simp_all

lemma fold_set_nth:
  "c < length xs \<Longrightarrow>
   fold (\<lambda>i xs. xs[i := f i]) [0..<n] xs ! c = (if c < n then f c else xs ! c)"
  using fold_upd_nth[of c xs "\<lambda>_. False" f n] by simp

lemma init_rank_eq:
  "init_rank n ic r0 rank =
     (fold (\<lambda>i xs. xs[i := r0]) [0..<n] rank, length (filter (\<lambda>i. ic ! i = 0) [0..<n]))"
  unfolding init_rank_def by (induction n) simp_all

lemma init_rank_take:
  assumes "n \<le> length rank"
  shows "take n (fst (init_rank n ic r0 rank)) = replicate n r0"
proof (rule nth_equalityI)
  show "length (take n (fst (init_rank n ic r0 rank))) = length (replicate n r0)"
    using assms by (simp add: init_rank_eq fold_set_length)
next
  fix i assume "i < length (take n (fst (init_rank n ic r0 rank)))"
  then have "i < n" by simp
  then show "take n (fst (init_rank n ic r0 rank)) ! i = replicate n r0 ! i"
    using assms by (simp add: init_rank_eq fold_set_nth)
qed

lemma init_rank_length: "length (fst (init_rank n ic r0 rank)) = length rank"
  by (simp add: init_rank_eq fold_set_length)

lemma rank_body_eq:
  "rank_body l n cs cc r d (A, B, ch) =
     (run_rank_iteration l A B n cs cc r d, A,
      find_max_ranks_diff A (run_rank_iteration l A B n cs cc r d) n)"
  by (simp add: rank_body_def Let_def)

lemma rank_iterates_dangling:
  assumes "cc ! c = 0" and "c < n"
  shows "\<exists>A B ch'. (rank_body l n cs cc r d ^^ k) (replicate n r0, replicate n r0, ch) = (A, B, ch')
           \<and> length A = n \<and> length B = n \<and> A ! c = r0 \<and> B ! c = r0"
proof (induction k)
  case 0
  then show ?case using assms by simp
next
  case (Suc k)
  then obtain A B ch' where
    s: "(rank_body l n cs cc r d ^^ k) (replicate n r0, replicate n r0, ch) = (A, B, ch')"
    and inv: "length A = n" "length B = n" "A ! c = r0" "B ! c = r0"
    by blast
  show ?case
    using assms inv
    by (simp add: s rank_body_eq run_rank_iteration_length run_rank_iteration_nth)
qed

lemma getCompressedInLinksCount_nth:
  "c < n \<Longrightarrow> getCompressedInLinksCount n st ic outs ! c =
     (if ic ! c = 0 then 0 else node_compressed_count outs (st ! c) (ic ! c))"
  by (simp add: getCompressedInLinksCount_def)

lemma calculate_rank_SomeD:
  assumes "calculate_rank stakes stakesSize cidsSize linksSize inLinksCount outLinksCount
       outLinksIns inLinksOuts inLinksUsers outLinksUsers rank dampingFactor tolerance entropy
       light karma uninitWeights uninitLinks = Some out"
  shows "\<exists>links cs r k A B ch.
     (rank_body links cidsSize cs
        (getCompressedInLinksCount cidsSize (fst (getLinksStartIndex cidsSize inLinksCount))
           inLinksCount inLinksOuts) r dampingFactor ^^ k)
       (take cidsSize (fst (init_rank cidsSize inLinksCount
                              (ddiv (dsub (Fin 1) dampingFactor) (ull2double cidsSize)) rank)),
        take cidsSize (fst (init_rank cidsSize inLinksCount
                              (ddiv (dsub (Fin 1) dampingFactor) (ull2double cidsSize)) rank)),
        dadd tolerance (Fin 1)) = (A, B, ch) \<and>
     out_rank out = cudaMemcpy (fst (init_rank cidsSize inLinksCount
                              (ddiv (dsub (Fin 1) dampingFactor) (ull2double cidsSize)) rank))
                      A cidsSize \<and>
     out_entropy out = entropy"
proof -
  note st = calculate_rank_stages[OF surjective_pairing surjective_pairing refl refl refl refl
      refl surjective_pairing refl refl surjective_pairing refl refl]
  show ?thesis
    using assms unfolding st
    apply (clarsimp split: option.splits dest!: rank_loop_returns)
    apply (intro exI conjI)
      apply (rule sym, assumption)
     apply (rule refl)
    done
qed

lemma calculate_rank_dangling:
  assumes run: "calculate_rank stakes stakesSize cidsSize linksSize inLinksCount outLinksCount
       outLinksIns inLinksOuts inLinksUsers outLinksUsers rank dampingFactor tolerance entropy
       light karma uninitWeights uninitLinks = Some out"
    and c: "c < cidsSize" "inLinksCount ! c = 0"
    and len: "cidsSize \<le> length rank"
  shows "out_rank out ! c = ddiv (dsub (Fin 1) dampingFactor) (ull2double cidsSize)"
proof -
  define r0 where "r0 = ddiv (dsub (Fin 1) dampingFactor) (ull2double cidsSize)"
  define cc where "cc = getCompressedInLinksCount cidsSize
     (fst (getLinksStartIndex cidsSize inLinksCount)) inLinksCount inLinksOuts"
  define rank1 where "rank1 = fst (init_rank cidsSize inLinksCount r0 rank)"
  have cc0: "cc ! c = 0" using c by (simp add: cc_def getCompressedInLinksCount_nth)
  have tk: "take cidsSize rank1 = replicate cidsSize r0"
    unfolding rank1_def by (rule init_rank_take[OF len])
  from calculate_rank_SomeD[OF run] obtain links cs r k A B ch where
    it: "(rank_body links cidsSize cs cc r dampingFactor ^^ k)
          (replicate cidsSize r0, replicate cidsSize r0, dadd tolerance (Fin 1)) = (A, B, ch)"
    and out: "out_rank out = cudaMemcpy rank1 A cidsSize"
    unfolding r0_def[symmetric] cc_def[symmetric] rank1_def[symmetric] tk by blast
  from rank_iterates_dangling[OF cc0 c(1), where l = links and cs = cs and r = r
      and d = dampingFactor and k = k and ?r0.0 = r0 and ch = "dadd tolerance (Fin 1)"]
  have "length A = cidsSize" "A ! c = r0"
    unfolding it by auto
  then show ?thesis
    using c(1) by (simp add: out cudaMemcpy_def nth_append r0_def)
qed

section \<open>Scenario S4: two users linking the same pair of nodes\<close>

text \<open>
  Claim C9. With two users of stake 3 and 7 who both link node 0 to node 1, the two
  inbound edges of node 1 are folded into one compressed entry: the compressed cnt of
  node 1 is 1, the compressed view has one entry in all, and that entry has source 0 and
  weight \<open>(3 + 7) / totalOutStake[0] = 10 / 10 = 1\<close>, whatever the output buffer held.
\<close>

theorem s4_two_edges_one_entry:
  "let stakes = [3, 7]; inLinksCount = [0, 2]; outLinksCount = [2, 0];
       inLinksOuts = [0, 0]; inLinksUsers = [0, 1]; outLinksUsers = [0, 1];
       inLinksStartIndex = fst (getLinksStartIndex 2 inLinksCount);
       outLinksStartIndex = fst (getLinksStartIndex 2 outLinksCount);
       cidsTotalOutStakes = calculateCidTotalOutStake 2 stakes outLinksStartIndex outLinksCount
                              outLinksUsers;
       compCount = getCompressedInLinksCount 2 inLinksStartIndex inLinksCount inLinksOuts;
       compStart = fst (getLinksStartIndex 2 compCount);
       K = snd (getLinksStartIndex 2 compCount);
       compressedIn = getCompressedInLinks 2 inLinksStartIndex inLinksCount cidsTotalOutStakes
                        inLinksOuts inLinksUsers stakes compStart compCount
                        (map uninitLinks [0..<K])
   in compCount ! 1 = 1 \<and> compStart ! 1 = 0 \<and> K = 1 \<and> cidsTotalOutStakes ! 0 = 10 \<and>
      compressedIn = [\<lparr>fromIndex = 0, weight = Fin ((3 + 7) / 10)\<rparr>] \<and>
      weight (compressedIn ! 0) = Fin 1"
proof -
  have a: "getLinksStartIndex 2 [0, 2] = ([0, 0], 2)"
    by (simp add: getLinksStartIndex_def u64_def upt_rec)
  have b: "getLinksStartIndex 2 [2, 0] = ([0, 2], 2)"
    by (simp add: getLinksStartIndex_def u64_def upt_rec)
  have c: "calculateCidTotalOutStake 2 [3, 7] [0, 2] [2, 0] [0, 1] = [10, 0]"
    by (simp add: calculateCidTotalOutStake_def node_total_stake_def slice_def u64_def upt_rec)
  have d: "getCompressedInLinksCount 2 [0, 0] [0, 2] [0, 0] = [0, 1]"
    by (simp add: getCompressedInLinksCount_def node_compressed_count_def slice_def upt_rec)
  have e: "getLinksStartIndex 2 [0, 1] = ([0, 0], 1)"
    by (simp add: getLinksStartIndex_def u64_def upt_rec)
  have f: "getCompressedInLinks 2 [0, 0] [0, 2] [10, 0] [0, 0] [0, 1] [3, 7] [0, 0] [0, 1]
             (map uninitLinks [0..<1]) = [\<lparr>fromIndex = 0, weight = Fin 1\<rparr>]"
    by (simp add: getCompressedInLinks_def node_compress_def compress_step_def slice_def u64_def
        u32_def ddiv_rn_def ull2double_def upt_rec)
  show ?thesis
    unfolding Let_def a b c d e f fst_conv snd_conv by simp
qed

subsection \<open>Karma accumulation, prefix sums and local weights\<close>

lemma sum_list_update_add:
  fixes xs :: "double list"
  shows "i < length xs \<Longrightarrow> sum_list (xs[i := xs ! i + v]) = sum_list xs + v"
proof (induction xs arbitrary: i)
  case Nil
  then show ?case by simp
next
  case (Cons x xs)
  then show ?case
    by (cases i) (simp_all add: add.assoc add.left_commute add.commute)
qed

lemma karma_inner_length:
  "length (fold (\<lambda>j k. k[us ! j := dadd (k ! (us ! j)) (t j)]) js k) = length k"
  by (induction js arbitrary: k) simp_all


lemma karma_inner_sum:
  assumes "\<forall>j\<in>set js. us ! j < length k"
  shows "sum_list (fold (\<lambda>j k. k[us ! j := dadd (k ! (us ! j)) (t j)]) js k) =
           sum_list k + (\<Sum>j\<leftarrow>js. t j)"
  using assms
proof (induction js arbitrary: k)
  case Nil
  then show ?case by simp
next
  case (Cons j js)
  let ?k = "k[us ! j := dadd (k ! (us ! j)) (t j)]"
  have "sum_list (fold (\<lambda>j k. k[us ! j := dadd (k ! (us ! j)) (t j)]) js ?k) =
          sum_list ?k + (\<Sum>j\<leftarrow>js. t j)"
    by (rule Cons.IH) (use Cons.prems in simp)
  moreover have "sum_list ?k = sum_list k + t j"
    using Cons.prems by (simp add: plus_double_def[symmetric] sum_list_update_add)
  ultimately show ?case by (simp add: add.assoc)
qed

lemma calculateKarma_Suc:
  "calculateKarma (Suc n) st cn us w light karma =
     fold (\<lambda>j k. k[us ! j := dadd (k ! (us ! j)) (dmul (light ! n) (w ! j))])
       (slice (st ! n) (cn ! n)) (calculateKarma n st cn us w light karma)"
  by (simp add: calculateKarma_def)

lemma calculateKarma_length:
  "length (calculateKarma n st cn us w light karma) = length karma"
proof (induction n)
  case 0
  then show ?case by (simp add: calculateKarma_def)
next
  case (Suc n)
  then show ?case by (simp add: calculateKarma_Suc karma_inner_length)
qed


lemma calculateKarma_sum:
  assumes "\<forall>i<n. \<forall>j\<in>set (slice (st ! i) (cn ! i)). us ! j < length karma"
  shows "sum_list (calculateKarma n st cn us w light karma) =
           sum_list karma + (\<Sum>i\<leftarrow>[0..<n]. \<Sum>j\<leftarrow>slice (st ! i) (cn ! i). dmul (light ! i) (w ! j))"
  using assms
proof (induction n)
  case 0
  then show ?case by (simp add: calculateKarma_def)
next
  case (Suc n)
  have "sum_list (calculateKarma (Suc n) st cn us w light karma) =
          sum_list (calculateKarma n st cn us w light karma) +
          (\<Sum>j\<leftarrow>slice (st ! n) (cn ! n). dmul (light ! n) (w ! j))"
    unfolding calculateKarma_Suc
    by (rule karma_inner_sum) (use Suc.prems in \<open>auto simp: calculateKarma_length\<close>)
  moreover from Suc.prems
  have "\<forall>i<n. \<forall>j\<in>set (slice (st ! i) (cn ! i)). us ! j < length karma"
    by (blast intro: less_SucI)
  ultimately show ?case using Suc.IH by (simp add: add.assoc)
qed


lemma u64_id: "n < 2 ^ 64 \<Longrightarrow> u64 n = n"
  by (simp add: u64_def)


lemma sum_take_mono:
  fixes xs :: "nat list"
  shows "i \<le> j \<Longrightarrow> sum_list (take i xs) \<le> sum_list (take j xs)"
proof -
  assume "i \<le> j"
  then have "take j xs = take i xs @ take (j - i) (drop i xs)"
    by (metis le_add_diff_inverse take_add)
  then show ?thesis by simp
qed

lemma sum_take_Suc:
  fixes xs :: "nat list"
  shows "i < length xs \<Longrightarrow> sum_list (take (Suc i) xs) = sum_list (take i xs) + xs ! i"
  by (simp add: take_Suc_conv_app_nth)

lemma getLinksStartIndex_eq:
  assumes "n \<le> length counts" and "sum_list (take n counts) < 2 ^ 64"
  shows "getLinksStartIndex n counts =
           (map (\<lambda>i. sum_list (take i counts)) [0..<n], sum_list (take n counts))"
  using assms
proof (induction n)
  case 0
  then show ?case by (simp add: getLinksStartIndex_def)
next
  case (Suc n)
  have le: "sum_list (take n counts) \<le> sum_list (take (Suc n) counts)"
    by (rule sum_take_mono) simp
  have IH: "getLinksStartIndex n counts =
           (map (\<lambda>i. sum_list (take i counts)) [0..<n], sum_list (take n counts))"
    by (rule Suc.IH) (use Suc.prems le in simp_all)
  have "getLinksStartIndex (Suc n) counts =
          (fst (getLinksStartIndex n counts) @ [snd (getLinksStartIndex n counts)],
           u64 (snd (getLinksStartIndex n counts) + counts ! n))"
    by (simp add: getLinksStartIndex_def split_def)
  also have "\<dots> = (map (\<lambda>i. sum_list (take i counts)) [0..<Suc n],
                     sum_list (take (Suc n) counts))"
    using Suc.prems by (simp add: IH sum_take_Suc u64_id)
  finally show ?case .
qed

lemma slice_mem: "j \<in> set (slice a n) \<longleftrightarrow> a \<le> j \<and> j < a + n"
  by (auto simp: slice_def)

lemma psum_slices_disjoint:
  fixes counts :: "nat list"
  assumes "i < i'" and "i' \<le> length counts"
    and "j \<in> set (slice (sum_list (take i counts)) (counts ! i))"
  shows "j \<notin> set (slice (sum_list (take i' counts)) (counts ! i'))"
proof -
  have "sum_list (take (Suc i) counts) \<le> sum_list (take i' counts)"
    by (rule sum_take_mono) (use assms(1) in simp)
  moreover have "sum_list (take (Suc i) counts) = sum_list (take i counts) + counts ! i"
    by (rule sum_take_Suc) (use assms in simp)
  ultimately show ?thesis using assms(3) by (simp add: slice_mem)
qed

lemma psum_slice_bound:
  fixes counts :: "nat list"
  assumes "i < n" and "n \<le> length counts"
    and "j \<in> set (slice (sum_list (take i counts)) (counts ! i))"
  shows "j < sum_list (take n counts)"
proof -
  have "sum_list (take (Suc i) counts) \<le> sum_list (take n counts)"
    by (rule sum_take_mono) (use assms(1) in simp)
  moreover have "sum_list (take (Suc i) counts) = sum_list (take i counts) + counts ! i"
    by (rule sum_take_Suc) (use assms in simp)
  ultimately show ?thesis using assms(3) by (simp add: slice_mem)
qed

lemma fold_write_length: "length (fold (\<lambda>j ws. ws[j := h j]) js ws) = length ws"
  by (induction js arbitrary: ws) simp_all

lemma fold_write_nth:
  "x < length ws \<Longrightarrow>
   fold (\<lambda>j ws. ws[j := h j]) js ws ! x = (if x \<in> set js then h x else ws ! x)"
proof (induction js arbitrary: ws)
  case Nil
  then show ?case by simp
next
  case (Cons j js)
  then show ?case by (auto simp: nth_list_update)
qed

lemma nested_write_length:
  "length (fold (\<lambda>i ws. fold (\<lambda>j ws. ws[j := g i j]) (slice (st ! i) (cn ! i)) ws) [0..<n] ws)
     = length ws"
  by (induction n) (simp_all add: fold_write_length)

lemma nested_write_nth:
  assumes "i < n" and "x \<in> set (slice (st ! i) (cn ! i))" and "x < length ws"
    and "\<forall>i'<n. i < i' \<longrightarrow> x \<notin> set (slice (st ! i') (cn ! i'))"
  shows "fold (\<lambda>i ws. fold (\<lambda>j ws. ws[j := g i j]) (slice (st ! i) (cn ! i)) ws) [0..<n] ws ! x
           = g i x"
  using assms(1,4)
proof (induction n)
  case 0
  then show ?case by simp
next
  case (Suc n)
  let ?w = "fold (\<lambda>i ws. fold (\<lambda>j ws. ws[j := g i j]) (slice (st ! i) (cn ! i)) ws) [0..<n] ws"
  have len: "x < length ?w" using assms(3) by (simp add: nested_write_length)
  show ?case
  proof (cases "i = n")
    case True
    then show ?thesis using assms(2) len by (simp add: fold_write_nth)
  next
    case False
    with Suc.prems have "i < n" and "x \<notin> set (slice (st ! n) (cn ! n))" by auto
    moreover from Suc.prems(2)
    have "\<forall>i'<n. i < i' \<longrightarrow> x \<notin> set (slice (st ! i') (cn ! i'))"
      by (blast intro: less_SucI)
    ultimately show ?thesis using Suc.IH len by (simp add: fold_write_nth)
  qed
qed

lemma calculateCyberlinksLocalWeights_nth:
  assumes "i < n" and "x \<in> set (slice (st ! i) (cn ! i))" and "x < length ws"
    and "\<forall>i'<n. i < i' \<longrightarrow> x \<notin> set (slice (st ! i') (cn ! i'))"
  shows "calculateCyberlinksLocalWeights n stakes st cn us tout tin ws ! x =
           ddiv_rn (stakes ! (us ! x)) (u64 (tout ! i + tin ! i))"
  unfolding calculateCyberlinksLocalWeights_def Let_def
  by (rule nested_write_nth[OF assms, of "\<lambda>i j. ddiv_rn (stakes ! (us ! j)) (u64 (tout ! i + tin ! i))"])


lemma calculate_rank_result:
  assumes "calculate_rank stakes stakesSize cidsSize linksSize inLinksCount outLinksCount
       outLinksIns inLinksOuts inLinksUsers outLinksUsers rank dampingFactor tolerance entropy
       light karma uninitWeights uninitLinks = Some out"
  shows "\<exists>A.
     out_light out = cudaMemcpy light
        (mulArrays cidsSize A
           (device_entropy cidsSize stakes inLinksCount outLinksCount inLinksUsers outLinksUsers))
        cidsSize \<and>
     out_karma out = cudaMemcpy karma
        (calculateKarma cidsSize (links_start cidsSize outLinksCount) outLinksCount outLinksUsers
           (local_weights cidsSize linksSize stakes inLinksCount outLinksCount inLinksUsers
              outLinksUsers uninitWeights)
           (mulArrays cidsSize A
              (device_entropy cidsSize stakes inLinksCount outLinksCount inLinksUsers
                 outLinksUsers))
           (take stakesSize karma)) stakesSize"
proof -
  note st = calculate_rank_stages[OF surjective_pairing surjective_pairing refl refl refl refl
      refl surjective_pairing refl refl surjective_pairing refl refl]
  show ?thesis
    using assms unfolding st device_entropy_def local_weights_def total_stakes_def links_start_def
    apply (clarsimp split: option.splits)
    apply (rule exI, rule conjI, rule refl, rule refl)
    done
qed


lemma links_start_eq:
  assumes "n \<le> length counts" and "sum_list (take n counts) < 2 ^ 64"
  shows "links_start n counts = map (\<lambda>i. sum_list (take i counts)) [0..<n]"
  by (simp add: links_start_def getLinksStartIndex_eq[OF assms])

lemma links_start_disjoint:
  assumes "n \<le> length counts" and "sum_list (take n counts) < 2 ^ 64"
    and "i < i'" and "i' < n" and "j \<in> set (slice (links_start n counts ! i) (counts ! i))"
  shows "j \<notin> set (slice (links_start n counts ! i') (counts ! i'))"
  using assms psum_slices_disjoint[of i i' counts j]
  by (simp add: links_start_eq)

lemma links_start_bound:
  assumes "n \<le> length counts" and "sum_list (take n counts) < 2 ^ 64"
    and "i < n" and "j \<in> set (slice (links_start n counts ! i) (counts ! i))"
  shows "j < sum_list (take n counts)"
  using assms psum_slice_bound[of i n counts j]
  by (simp add: links_start_eq)

lemma local_weights_nth:
  assumes "cidsSize \<le> length outLinksCount"
    and "sum_list (take cidsSize outLinksCount) \<le> linksSize" and "linksSize < 2 ^ 64"
    and "i < cidsSize"
    and "j \<in> set (slice (links_start cidsSize outLinksCount ! i) (outLinksCount ! i))"
  shows "local_weights cidsSize linksSize stakes inLinksCount outLinksCount inLinksUsers
           outLinksUsers uninitWeights ! j =
         ddiv_rn (stakes ! (outLinksUsers ! j))
           (oil cidsSize stakes inLinksCount outLinksCount inLinksUsers outLinksUsers i)"
proof -
  have lt: "sum_list (take cidsSize outLinksCount) < 2 ^ 64" using assms(2,3) by simp
  have "j < sum_list (take cidsSize outLinksCount)"
    by (rule links_start_bound[OF assms(1) lt assms(4,5)])
  then have len: "j < length (map uninitWeights [0..<linksSize])" using assms(2) by simp
  have dis: "\<forall>i'<cidsSize. i < i' \<longrightarrow>
      j \<notin> set (slice (links_start cidsSize outLinksCount ! i') (outLinksCount ! i'))"
    using links_start_disjoint[OF assms(1) lt _ _ assms(5)] by blast
  show ?thesis
    unfolding local_weights_def oil_def
    by (rule calculateCyberlinksLocalWeights_nth[OF assms(4,5) len dis])
qed

lemma mulArrays_length: "length (mulArrays n a b) = n"
  by (simp add: mulArrays_def)

lemma cudaMemcpy_nth: "i < n \<Longrightarrow> n \<le> length src \<Longrightarrow> cudaMemcpy dst src n ! i = src ! i"
  by (simp add: cudaMemcpy_def nth_append)

lemma sum_list_map_cong:
  fixes f g :: "'a \<Rightarrow> double"
  shows "(\<And>x. x \<in> set xs \<Longrightarrow> f x = g x) \<Longrightarrow> (\<Sum>x\<leftarrow>xs. f x) = (\<Sum>x\<leftarrow>xs. g x)"
  by (rule arg_cong[where f = sum_list]) simp

section \<open>Nodes without inbound links\<close>

text \<open>
  Claim C1, as stated, fails on the single-node graph without links with damping 1/2.
  There the default rank is \<open>r0 = 1/2\<close>, the node is dangling, and the corrected default is
  \<open>1/2 * (1/2 * (1/1)) + 1/2 = 3/4\<close>. One run of the kernel on the initial buffers leaves
  the cell of the node at 1/2, not 3/4, and the rank returned by \<open>calculate_rank\<close> is 1/2.
\<close>

theorem dangling_rank_not_corrected:
  "dadd (dmul (Fin (1 / 2)) (dmul (Fin (1 / 2)) (ddiv (ull2double 1) (ull2double 1))))
     (Fin (1 / 2)) = Fin (3 / 4) \<and>
   run_rank_iteration [] [Fin (1 / 2)] [Fin (1 / 2)] 1 [0] [0] (Fin (3 / 4)) (Fin (1 / 2)) ! 0
     = Fin (1 / 2) \<and>
   run_rank_iteration [] [Fin (1 / 2)] [Fin (1 / 2)] 1 [0] [0] (Fin (3 / 4)) (Fin (1 / 2)) ! 0
     \<noteq> Fin (3 / 4) \<and>
   calculate_rank [1] 1 1 0 [0] [0] [] [] [] [] [Fin 0] (Fin (1 / 2)) (Fin (1 / 1000000000))
     [Fin 0] [Fin 0] [Fin 0] zero_weights zero_links =
   Some \<lparr>out_rank = [Fin (1 / 2)], out_entropy = [Fin 0], out_light = [Fin 0],
          out_karma = [Fin 0]\<rparr>"
proof -
  have "calculate_rank [1] 1 1 0 [0] [0] [] [] [] [] [Fin 0] (Fin (1 / 2)) (Fin (1 / 1000000000))
     [Fin 0] [Fin 0] [Fin 0] zero_weights zero_links =
   Some \<lparr>out_rank = [Fin (1 - 1 / 2)], out_entropy = [Fin 0], out_light = [Fin 0],
          out_karma = [Fin 0]\<rparr>"
    by (rule s1_run) simp
  then show ?thesis
    by (simp add: run_rank_iteration_def ull2double_def)
qed

text \<open>
  Claim C1, amended. A node whose compressed inbound cnt is zero is skipped by the
  kernel: the cell of the node in the written buffer keeps its value. Both buffers start
  with the default rank \<open>r0\<close> in every cell, so after any number of passes of the loop both
  buffers hold \<open>r0\<close> at such a node, and the rank returned for a node without inbound
  links is the default rank \<open>(1 - d) / N\<close>.
\<close>

theorem dangling_rank_kept:
  "(cc ! c = 0 \<and> c < length rank \<longrightarrow>
      run_rank_iteration links prevRank rank n cs cc r d ! c = rank ! c) \<and>
   (cc ! c = 0 \<and> c < n \<longrightarrow>
      fst ((rank_body links n cs cc r d ^^ k) (replicate n r0, replicate n r0, ch)) ! c = r0 \<and>
      fst (snd ((rank_body links n cs cc r d ^^ k) (replicate n r0, replicate n r0, ch))) ! c
        = r0) \<and>
   (calculate_rank stakes stakesSize cidsSize linksSize inLinksCount outLinksCount
       outLinksIns inLinksOuts inLinksUsers outLinksUsers rank dampingFactor tolerance entropy
       light karma uninitWeights uninitLinks = Some out \<and>
    c < cidsSize \<and> inLinksCount ! c = 0 \<and> cidsSize \<le> length rank \<longrightarrow>
      out_rank out ! c = ddiv (dsub (Fin 1) dampingFactor) (ull2double cidsSize))"
proof (intro conjI impI)
  assume "cc ! c = 0 \<and> c < length rank"
  then show "run_rank_iteration links prevRank rank n cs cc r d ! c = rank ! c"
    by (simp add: run_rank_iteration_nth)
next
  assume a: "cc ! c = 0 \<and> c < n"
  from rank_iterates_dangling[OF conjunct1[OF a] conjunct2[OF a], where l = links and cs = cs
      and r = r and d = d and k = k and ?r0.0 = r0 and ch = ch]
  obtain A B ch' where
    "(rank_body links n cs cc r d ^^ k) (replicate n r0, replicate n r0, ch) = (A, B, ch')"
    "A ! c = r0" "B ! c = r0"
    by blast
  then show "fst ((rank_body links n cs cc r d ^^ k) (replicate n r0, replicate n r0, ch)) ! c
      = r0"
    and "fst (snd ((rank_body links n cs cc r d ^^ k) (replicate n r0, replicate n r0, ch))) ! c
      = r0"
    by simp_all
next
  assume "calculate_rank stakes stakesSize cidsSize linksSize inLinksCount outLinksCount
       outLinksIns inLinksOuts inLinksUsers outLinksUsers rank dampingFactor tolerance entropy
       light karma uninitWeights uninitLinks = Some out \<and>
    c < cidsSize \<and> inLinksCount ! c = 0 \<and> cidsSize \<le> length rank"
  then show "out_rank out ! c = ddiv (dsub (Fin 1) dampingFactor) (ull2double cidsSize)"
    using calculate_rank_dangling by blast
qed

text \<open>The amended claim C1 at the single-node graph, after three passes and on return.\<close>

theorem dangling_rank_kept_witness:
  "[0::nat] ! 0 = 0 \<and> (0::nat) < length [Fin (1 / 2)] \<and> (0::nat) < 1 \<and>
   run_rank_iteration [] [Fin (1 / 2)] [Fin (1 / 2)] 1 [0] [0] (Fin (3 / 4)) (Fin (1 / 2)) ! 0
     = [Fin (1 / 2)] ! 0 \<and>
   fst ((rank_body [] 1 [0] [0] (Fin (3 / 4)) (Fin (1 / 2)) ^^ 3)
          (replicate 1 (Fin (1 / 2)), replicate 1 (Fin (1 / 2)), Fin 2)) ! 0 = Fin (1 / 2) \<and>
   calculate_rank [1] 1 1 0 [0] [0] [] [] [] [] [Fin 0] (Fin (1 / 2)) (Fin (1 / 1000000000))
     [Fin 0] [Fin 0] [Fin 0] zero_weights zero_links =
   Some \<lparr>out_rank = [Fin (1 / 2)], out_entropy = [Fin 0], out_light = [Fin 0],
          out_karma = [Fin 0]\<rparr> \<and>
   out_rank \<lparr>out_rank = [Fin (1 / 2)], out_entropy = [Fin 0], out_light = [Fin 0],
          out_karma = [Fin 0]\<rparr> ! 0 = ddiv (dsub (Fin 1) (Fin (1 / 2))) (ull2double 1)"
proof -
  have run: "calculate_rank [1] 1 1 0 [0] [0] [] [] [] [] [Fin 0] (Fin (1 / 2))
     (Fin (1 / 1000000000)) [Fin 0] [Fin 0] [Fin 0] zero_weights zero_links =
   Some \<lparr>out_rank = [Fin (1 - 1 / 2)], out_entropy = [Fin 0], out_light = [Fin 0],
          out_karma = [Fin 0]\<rparr>"
    by (rule s1_run) simp
  show ?thesis
    using run dangling_rank_kept[where cc = "[0]" and c = 0 and rank = "[Fin (1 / 2)]"
        and links = "[]" and prevRank = "[Fin (1 / 2)]" and n = 1 and cs = "[0]"
        and r = "Fin (3 / 4)" and d = "Fin (1 / 2)" and k = 3 and ?r0.0 = "Fin (1 / 2)"
        and ch = "Fin 2" and cidsSize = 1 and inLinksCount = "[0]"]
    by (simp add: dsub_def ull2double_def)
qed

section \<open>The entropy output\<close>

text \<open>
  Claim C3 on the graph with two nodes and two users of stake 1 who both link node 0 to
  node 1, the caller's arrays holding zeros. The entropy computed on the device,
  out-entropy plus in-entropy with the combined normalizer, is 1 at both nodes, and the
  light output is the rank times that entropy. The entropy array handed back to the
  caller still holds the zeros it held on entry: the sum is never copied to it.
\<close>

theorem entropy_output_unchanged:
  "calculate_rank [1, 1] 2 2 2 [0, 2] [2, 0] [1, 1] [0, 0] [0, 1] [0, 1] [Fin 0, Fin 0]
     (Fin (1 / 2)) (Fin (1 / 1000)) [Fin 0, Fin 0] [Fin 0, Fin 0] [Fin 0, Fin 0]
     zero_weights zero_links =
   Some \<lparr>out_rank = [Fin (1 / 4), Fin (7 / 16)], out_entropy = [Fin 0, Fin 0],
          out_light = [Fin (1 / 4), Fin (7 / 16)], out_karma = [Fin (1 / 8), Fin (1 / 8)]\<rparr> \<and>
   sumArrays 2 (calculateNodeEntropy 2 [1, 1] [0, 2] [2, 0] [0, 1] [2, 0] [0, 2])
     (calculateNodeEntropy 2 [1, 1] [0, 0] [0, 2] [0, 1] [2, 0] [0, 2]) = [Fin 1, Fin 1]"
  using g2_run g2_stages(5) by simp

section \<open>Parameters outside their range\<close>




section \<open>Karma\<close>

text \<open>
  Claim C6, as stated, fails on the two-node graph above with zero-initialised outputs:
  the karma of the two users adds up to 1/4, the light of the two nodes to 11/16. Node 1
  has light and no outbound link, so its light reaches no user.
\<close>

theorem karma_not_conserved:
  "calculate_rank [1, 1] 2 2 2 [0, 2] [2, 0] [1, 1] [0, 0] [0, 1] [0, 1] [Fin 0, Fin 0]
     (Fin (1 / 2)) (Fin (1 / 1000)) [Fin 0, Fin 0] [Fin 0, Fin 0] [Fin 0, Fin 0]
     zero_weights zero_links =
   Some \<lparr>out_rank = [Fin (1 / 4), Fin (7 / 16)], out_entropy = [Fin 0, Fin 0],
          out_light = [Fin (1 / 4), Fin (7 / 16)], out_karma = [Fin (1 / 8), Fin (1 / 8)]\<rparr> \<and>
   sum_list [Fin (1 / 8), Fin (1 / 8)] = Fin (1 / 4) \<and>
   sum_list [Fin (1 / 4), Fin (7 / 16)] = Fin (11 / 16) \<and>
   sum_list [Fin (1 / 8), Fin (1 / 8)] \<noteq> sum_list [Fin (1 / 4), Fin (7 / 16)]"
  using g2_run by (simp add: plus_double_def zero_double_def)




text \<open>
  Claim C6, amended. The karma that the entry point adds up over all users is the light of
  every node times the local weights of the outbound edges of the node: the total karma
  on return is the total on entry plus \<open>\<Sum>c \<Sum>e \<in> out-slice(c). light[c] * w[e]\<close>, with
  \<open>w[e] = stake[outAuthor[e]] / oil[c]\<close>. The weights of a node add up to the share of its
  outbound stake in \<open>oil[c]\<close>, so the total is the total light only when that share is 1 at
  every node that has light.
\<close>

theorem karma_total:
  assumes run: "calculate_rank stakes stakesSize cidsSize linksSize inLinksCount outLinksCount
       outLinksIns inLinksOuts inLinksUsers outLinksUsers rank dampingFactor tolerance entropy
       light karma uninitWeights uninitLinks = Some out"
    and sizes: "cidsSize \<le> length outLinksCount"
      "sum_list (take cidsSize outLinksCount) \<le> linksSize" "linksSize < 2 ^ 64"
      "stakesSize \<le> length karma"
    and users: "\<forall>e<sum_list (take cidsSize outLinksCount). outLinksUsers ! e < stakesSize"
  shows "sum_list (take stakesSize (out_karma out)) =
           sum_list (take stakesSize karma) +
           (\<Sum>c\<leftarrow>[0..<cidsSize].
              \<Sum>e\<leftarrow>slice (links_start cidsSize outLinksCount ! c) (outLinksCount ! c).
                dmul (out_light out ! c)
                  (ddiv_rn (stakes ! (outLinksUsers ! e))
                     (oil cidsSize stakes inLinksCount outLinksCount inLinksUsers outLinksUsers
                        c)))"
proof -
  let ?outS = "links_start cidsSize outLinksCount"
  let ?ws = "local_weights cidsSize linksSize stakes inLinksCount outLinksCount inLinksUsers
               outLinksUsers uninitWeights"
  from calculate_rank_result[OF run] obtain A where
    li: "out_light out = cudaMemcpy light
        (mulArrays cidsSize A
           (device_entropy cidsSize stakes inLinksCount outLinksCount inLinksUsers outLinksUsers))
        cidsSize"
    and ka: "out_karma out = cudaMemcpy karma
        (calculateKarma cidsSize ?outS outLinksCount outLinksUsers ?ws
           (mulArrays cidsSize A
              (device_entropy cidsSize stakes inLinksCount outLinksCount inLinksUsers
                 outLinksUsers))
           (take stakesSize karma)) stakesSize"
    unfolding local_weights_def device_entropy_def total_stakes_def links_start_def by blast
  let ?l = "mulArrays cidsSize A
     (device_entropy cidsSize stakes inLinksCount outLinksCount inLinksUsers outLinksUsers)"
  have lt: "sum_list (take cidsSize outLinksCount) < 2 ^ 64" using sizes(2,3) by simp
  have light_nth: "out_light out ! c = ?l ! c" if "c < cidsSize" for c
    unfolding li using that by (simp add: cudaMemcpy_nth mulArrays_length)
  have rng: "\<forall>c<cidsSize. \<forall>e\<in>set (slice (?outS ! c) (outLinksCount ! c)).
               outLinksUsers ! e < length (take stakesSize karma)"
    using links_start_bound[OF sizes(1) lt] users sizes(4) by simp
  have "take stakesSize (out_karma out) =
          calculateKarma cidsSize ?outS outLinksCount outLinksUsers ?ws ?l (take stakesSize karma)"
    unfolding ka using sizes(4) by (simp add: cudaMemcpy_def calculateKarma_length)
  then have "sum_list (take stakesSize (out_karma out)) =
       sum_list (calculateKarma cidsSize ?outS outLinksCount outLinksUsers ?ws ?l
                   (take stakesSize karma))"
    by simp
  also have "\<dots> = sum_list (take stakesSize karma) +
       (\<Sum>c\<leftarrow>[0..<cidsSize]. \<Sum>e\<leftarrow>slice (?outS ! c) (outLinksCount ! c).
             dmul (?l ! c) (?ws ! e))"
    by (rule calculateKarma_sum[OF rng])
  also have "(\<Sum>c\<leftarrow>[0..<cidsSize]. \<Sum>e\<leftarrow>slice (?outS ! c) (outLinksCount ! c).
             dmul (?l ! c) (?ws ! e)) =
       (\<Sum>c\<leftarrow>[0..<cidsSize]. \<Sum>e\<leftarrow>slice (?outS ! c) (outLinksCount ! c).
             dmul (out_light out ! c)
               (ddiv_rn (stakes ! (outLinksUsers ! e))
                  (oil cidsSize stakes inLinksCount outLinksCount inLinksUsers outLinksUsers c)))"
  proof (rule sum_list_map_cong)
    fix c assume "c \<in> set [0..<cidsSize]"
    then have c: "c < cidsSize" by simp
    show "(\<Sum>e\<leftarrow>slice (?outS ! c) (outLinksCount ! c). dmul (?l ! c) (?ws ! e)) =
          (\<Sum>e\<leftarrow>slice (?outS ! c) (outLinksCount ! c).
             dmul (out_light out ! c)
               (ddiv_rn (stakes ! (outLinksUsers ! e))
                  (oil cidsSize stakes inLinksCount outLinksCount inLinksUsers outLinksUsers c)))"
    proof (rule sum_list_map_cong)
      fix e assume e: "e \<in> set (slice (?outS ! c) (outLinksCount ! c))"
      show "dmul (?l ! c) (?ws ! e) =
            dmul (out_light out ! c)
               (ddiv_rn (stakes ! (outLinksUsers ! e))
                  (oil cidsSize stakes inLinksCount outLinksCount inLinksUsers outLinksUsers c))"
        by (simp only: light_nth[OF c] local_weights_nth[OF sizes(1,2,3) c e])
    qed
  qed
  finally show ?thesis .
qed





text \<open>The amended claim C6 on the two-node graph: a total of 1/4.\<close>

theorem karma_total_witness:
  "calculate_rank [1, 1] 2 2 2 [0, 2] [2, 0] [1, 1] [0, 0] [0, 1] [0, 1] [Fin 0, Fin 0]
     (Fin (1 / 2)) (Fin (1 / 1000)) [Fin 0, Fin 0] [Fin 0, Fin 0] [Fin 0, Fin 0]
     zero_weights zero_links =
   Some \<lparr>out_rank = [Fin (1 / 4), Fin (7 / 16)], out_entropy = [Fin 0, Fin 0],
          out_light = [Fin (1 / 4), Fin (7 / 16)], out_karma = [Fin (1 / 8), Fin (1 / 8)]\<rparr> \<and>
   sum_list (take 2 [Fin (1 / 8), Fin (1 / 8)]) =
     sum_list (take 2 [Fin 0, Fin 0]) +
     (\<Sum>c\<leftarrow>[0..<2]. \<Sum>e\<leftarrow>slice (links_start 2 [2, 0] ! c) ([2, 0] ! c).
        dmul ([Fin (1 / 4), Fin (7 / 16)] ! c)
          (ddiv_rn ([1, 1] ! ([0, 1] ! e)) (oil 2 [1, 1] [0, 2] [2, 0] [0, 1] [0, 1] c)))"
proof -
  have "\<forall>e<sum_list (take 2 [2, 0 :: nat]). [0, 1 :: nat] ! e < 2"
    by (auto simp: less_Suc_eq numeral_2_eq_2)
  from karma_total[OF g2_run[of zero_weights zero_links] _ _ _ _ this]
  show ?thesis
    using g2_run[of zero_weights zero_links] by simp
qed

lemma dsub_NaN [simp]: "dsub NaN x = NaN" "dsub x NaN = NaN"
  by (cases x; simp add: dsub_def)+

lemma entropy_term_pos:
  "0 < s \<Longrightarrow> 0 < oil_c \<Longrightarrow>
   dmul (ddiv_rn s oil_c) (log2 (ddiv_rn s oil_c)) =
     Fin (real s / real oil_c * log 2 (real s / real oil_c))"
  by (simp add: ddiv_rn_def ull2double_def)

lemma entropy_term_zero:
  "0 < oil_c \<Longrightarrow> dmul (ddiv_rn 0 oil_c) (log2 (ddiv_rn 0 oil_c)) = NaN"
  by (simp add: ddiv_rn_def ull2double_def)

lemma node_entropy_Suc:
  "node_entropy stakes us start (Suc n) oil_c =
     dsub (node_entropy stakes us start n oil_c)
       (dmul (ddiv_rn (stakes ! (us ! (start + n))) oil_c)
          (log2 (ddiv_rn (stakes ! (us ! (start + n))) oil_c)))"
  by (simp add: node_entropy_def slice_Suc Let_def)

lemma node_entropy_finite:
  assumes "0 < oil_c" and "\<forall>j\<in>set (slice start cnt). 0 < stakes ! (us ! j)"
  shows "node_entropy stakes us start cnt oil_c =
           Fin (- (\<Sum>j\<leftarrow>slice start cnt.
                     real (stakes ! (us ! j)) / real oil_c *
                     log 2 (real (stakes ! (us ! j)) / real oil_c)))"
  using assms(2)
proof (induction cnt)
  case 0
  then show ?case by (simp add: node_entropy_def slice_0)
next
  case (Suc n)
  from Suc.prems have pos: "0 < stakes ! (us ! (start + n))"
    and rest: "\<forall>j\<in>set (slice start n). 0 < stakes ! (us ! j)"
    by (simp_all add: slice_Suc)
  show ?case
    unfolding node_entropy_Suc Suc.IH[OF rest] entropy_term_pos[OF pos assms(1)]
    by (simp add: slice_Suc dsub_def)
qed

lemma node_entropy_NaN_stays:
  "node_entropy stakes us start n oil_c = NaN \<Longrightarrow> n \<le> m \<Longrightarrow>
   node_entropy stakes us start m oil_c = NaN"
proof (induction m)
  case 0
  then show ?case by simp
next
  case (Suc m)
  show ?case
  proof (cases "n = Suc m")
    case True
    then show ?thesis using Suc.prems by simp
  next
    case False
    then have "node_entropy stakes us start m oil_c = NaN" using Suc by simp
    then show ?thesis by (simp add: node_entropy_Suc)
  qed
qed

lemma node_entropy_zero_stake:
  assumes "0 < oil_c" and "j \<in> set (slice start cnt)" and "stakes ! (us ! j) = 0"
  shows "node_entropy stakes us start cnt oil_c = NaN"
proof -
  from assms(2) have "j = start + (j - start)" "j - start < cnt"
    by (auto simp: slice_mem)
  then obtain n where n: "j = start + n" "n < cnt" by blast
  have "node_entropy stakes us start (Suc n) oil_c = NaN"
    unfolding node_entropy_Suc using assms(1,3) n(1) by (simp add: entropy_term_zero)
  then show ?thesis
    by (rule node_entropy_NaN_stays) (use n(2) in simp)
qed

section \<open>The entropy kernel and authors without stake\<close>

text \<open>
  Claim C5, as stated, fails on a node with two outbound edges whose authors hold stakes
  0 and 1 (total outbound stake 1, no inbound stake): the term of the first edge is
  \<open>0 * log2 0 = 0 * (-inf)\<close>, which is NaN, and the entropy of the node is NaN.
\<close>

theorem zero_stake_entropy_nan:
  "dmul (ddiv_rn 0 1) (log2 (ddiv_rn 0 1)) = NaN \<and>
   calculateNodeEntropy 1 [0, 1] [0] [2] [0, 1] [1] [0] = [NaN]"
  by (simp add: calculateNodeEntropy_def node_entropy_def slice_def ddiv_rn_def ull2double_def
      u64_def upt_rec)

text \<open>
  Claim C5, amended. The kernel has no guard. With a positive normalizer, a slice whose
  authors all hold positive stake gives the finite entropy \<open>- \<Sum> p * log2 p\<close>; the term of an
  author with stake 0 is NaN, and a slice that contains such an author gives NaN.
\<close>

theorem entropy_unguarded:
  "(0 < oil_c \<and> (\<forall>j\<in>set (slice start cnt). 0 < stakes ! (outLinksUsers ! j)) \<longrightarrow>
      node_entropy stakes outLinksUsers start cnt oil_c =
        Fin (- (\<Sum>j\<leftarrow>slice start cnt.
                  real (stakes ! (outLinksUsers ! j)) / real oil_c *
                  log 2 (real (stakes ! (outLinksUsers ! j)) / real oil_c)))) \<and>
   (0 < oil_c \<longrightarrow> dmul (ddiv_rn 0 oil_c) (log2 (ddiv_rn 0 oil_c)) = NaN) \<and>
   (0 < oil_c \<and> (\<exists>j\<in>set (slice start cnt). stakes ! (outLinksUsers ! j) = 0) \<longrightarrow>
      node_entropy stakes outLinksUsers start cnt oil_c = NaN) \<and>
   (c < cidsSize \<longrightarrow>
      calculateNodeEntropy cidsSize stakes outLinksStartIndex outLinksCount outLinksUsers
        cidsTotalOutStakes cidsTotalInStakes ! c =
      node_entropy stakes outLinksUsers (outLinksStartIndex ! c) (outLinksCount ! c)
        (u64 (cidsTotalOutStakes ! c + cidsTotalInStakes ! c)))"
  using node_entropy_finite node_entropy_zero_stake entropy_term_zero
  by (auto simp: calculateNodeEntropy_def)

text \<open>The amended claim C5 on a slice with stakes 1, 1 and on a slice with stakes 0, 1.\<close>

theorem entropy_unguarded_witness:
  "(0::nat) < 2 \<and> 0 < [1, 1 :: nat] ! ([0, 1] ! 0) \<and> 0 < [1, 1 :: nat] ! ([0, 1] ! 1) \<and>
   node_entropy [1, 1] [0, 1] 0 2 2 = Fin 1 \<and>
   [0, 1] ! ([0, 1] ! 0) = (0::nat) \<and>
   node_entropy [0, 1] [0, 1] 0 2 2 = NaN \<and>
   dmul (ddiv_rn 0 2) (log2 (ddiv_rn 0 2)) = NaN"
  using entropy_unguarded[of 2 0 2 "[1, 1]" "[0, 1]"]
    entropy_unguarded[of 2 0 2 "[0, 1]" "[0, 1]"]
  by (simp add: slice_def upt_rec log_half)

section \<open>Inbound compression\<close>




































section \<open>The power method\<close>









section \<open>Termination of the power method\<close>




















section \<open>Termination on valid graphs\<close>



































end
